theory Spec2Isabelle
  imports Main "HOL-Library.Multiset"
begin

section \<open>Strings\<close>

text \<open>
  Go strings are byte sequences; \<open>strings.HasPrefix\<close> and \<open>strings.Contains\<close> compare
  bytes, so both are case-sensitive.
\<close>

definition HasPrefix :: "string \<Rightarrow> string \<Rightarrow> bool" where
  "HasPrefix s pre = (take (length pre) s = pre)"

fun Contains :: "string \<Rightarrow> string \<Rightarrow> bool" where
  "Contains [] substr = (substr = [])"
| "Contains (c # s) substr = (HasPrefix (c # s) substr \<or> Contains s substr)"

section \<open>The validator package\<close>

subsection \<open>Data and the outside world\<close>

record LinkStatus =
  Link :: string
  Valid :: bool
  Reason :: string
  StatusCode :: int

datatype http_method = HEAD | GET

text \<open>
  What the program reads of a \<open>*http.Response\<close>: \<open>resp.StatusCode\<close>, \<open>resp.Status\<close> (the
  status line, such as \<open>404 Not Found\<close>), and, for the client's redirect loop, the target
  of its \<open>Location\<close> header when it has one.
\<close>

datatype Response = Response (resp_StatusCode: int) (resp_Status: string) (resp_Location: "string option")

text \<open>
  The network, the file system and the path library are outside the program. A \<open>world\<close>
  fixes their answers: \<open>RoundTrip m url timeout\<close> is one HTTP exchange (\<open>Inl\<close> the text of
  the transport error, \<open>err.Error()\<close>), \<open>Stat p\<close> is \<open>os.Stat\<close> (\<open>Some\<close> the error text when
  it fails), \<open>IsAbs\<close>, \<open>Join\<close> and \<open>Dir\<close> are those of \<open>path/filepath\<close>.
  For the command line: \<open>ExtractLinksFromFile\<close> reads and parses a markdown file
  (\<open>Inl\<close> the error), \<open>FetchPage url timeout\<close> is \<open>client.Get\<close> followed by \<open>io.ReadAll\<close>,
  \<open>ExtractLinksFromHTML\<close> is the HTML parser, and \<open>url_Parse\<close>, \<open>ResolveReference\<close>,
  \<open>URL_String\<close> are those of \<open>net/url\<close>; of a parsed URL the program reads its \<open>Scheme\<close>
  and its \<open>String()\<close> only.
\<close>

datatype url_URL = url_URL (Scheme: string) (Rest: string)

datatype fetched = GetFailed string | ReadFailed string | Body string

record world =
  RoundTrip :: "http_method \<Rightarrow> string \<Rightarrow> int \<Rightarrow> string + Response"
  Stat :: "string \<Rightarrow> string option"
  IsAbs :: "string \<Rightarrow> bool"
  Join :: "string \<Rightarrow> string \<Rightarrow> string"
  Dir :: "string \<Rightarrow> string"
  ExtractLinksFromFile :: "string \<Rightarrow> string + string list"
  FetchPage :: "string \<Rightarrow> int \<Rightarrow> fetched"
  ExtractLinksFromHTML :: "string \<Rightarrow> string list"
  url_Parse :: "string \<Rightarrow> string + url_URL"
  ResolveReference :: "url_URL \<Rightarrow> url_URL \<Rightarrow> url_URL"
  URL_String :: "url_URL \<Rightarrow> string"

subsection \<open>The HTTP client as \<open>checkHTTP\<close> configures it\<close>

text \<open>
  \<open>CheckRedirect\<close> of the source: with \<open>via\<close> the requests made so far, it answers
  \<open>http.ErrUseLastResponse\<close> (here \<open>True\<close>) when \<open>len(via) >= 10\<close> and \<open>nil\<close> otherwise.
\<close>

definition CheckRedirect :: "nat \<Rightarrow> bool" where
  "CheckRedirect len_via = (len_via \<ge> 10)"

text \<open>
  \<open>net/http\<close> redirects on the status codes 301, 302, 303, 307 and 308; a request that is
  \<open>HEAD\<close> or \<open>GET\<close> keeps its method.
\<close>

definition shouldRedirect :: "Response \<Rightarrow> bool" where
  "shouldRedirect resp = (resp_StatusCode resp \<in> {301, 302, 303, 307, 308})"

text \<open>
  The loop of \<open>http.Client\<close>: send the request; on a transport error return it; on a
  response that is no redirect, or has no \<open>Location\<close>, return the response; otherwise ask
  \<open>CheckRedirect\<close> with the requests made so far, and on \<open>ErrUseLastResponse\<close> return the
  response last received with a nil error, else follow. \<open>n\<close> counts the requests made
  before this one.
\<close>

function client_do :: "world \<Rightarrow> int \<Rightarrow> http_method \<Rightarrow> string \<Rightarrow> nat \<Rightarrow> string + Response" where
  "client_do w timeout m url n =
     (case RoundTrip w m url timeout of
        Inl err \<Rightarrow> Inl err
      | Inr resp \<Rightarrow>
          if \<not> shouldRedirect resp then Inr resp
          else (case resp_Location resp of
                  None \<Rightarrow> Inr resp
                | Some loc \<Rightarrow>
                    if CheckRedirect (Suc n) then Inr resp
                    else client_do w timeout m loc (Suc n)))"
  by pat_completeness auto
termination
  by (relation "measure (\<lambda>(w, timeout, m, url, n). 10 - n)") (auto simp: CheckRedirect_def)

declare client_do.simps [simp del]

definition client_Head :: "world \<Rightarrow> int \<Rightarrow> string \<Rightarrow> string + Response" where
  "client_Head w timeout url = client_do w timeout HEAD url 0"

definition client_Get :: "world \<Rightarrow> int \<Rightarrow> string \<Rightarrow> string + Response" where
  "client_Get w timeout url = client_do w timeout GET url 0"

subsection \<open>The single-link checks\<close>

definition checkHTTP :: "world \<Rightarrow> string \<Rightarrow> int \<Rightarrow> bool \<times> string \<times> int" where
  "checkHTTP w url timeout =
     (let classify = (\<lambda>resp.
            if resp_StatusCode resp \<ge> 200 \<and> resp_StatusCode resp < 400
            then (True, '''', resp_StatusCode resp)
            else (False, resp_Status resp, resp_StatusCode resp))
      in case client_Head w timeout url of
           Inr resp \<Rightarrow> classify resp
         | Inl _ \<Rightarrow>
             (case client_Get w timeout url of
                Inl err \<Rightarrow>
                  if Contains err ''timeout'' then (False, ''Request timeout'', 0)
                  else (False, err, 0)
              | Inr resp \<Rightarrow> classify resp))"

definition checkFile :: "world \<Rightarrow> string \<Rightarrow> string \<Rightarrow> bool \<times> string" where
  "checkFile w basePath relPath =
     (let fullPath = (if IsAbs w relPath then relPath else Join w basePath relPath)
      in case Stat w fullPath of
           Some err \<Rightarrow> (False, err)
         | None \<Rightarrow> (True, ''''))"

text \<open>The body of the loop of \<open>worker\<close>: the status it computes for one link.\<close>

definition worker_status :: "world \<Rightarrow> string \<Rightarrow> int \<Rightarrow> string \<Rightarrow> LinkStatus" where
  "worker_status w basePath timeout link =
     (if HasPrefix link ''http://'' \<or> HasPrefix link ''https://''
      then (case checkHTTP w link timeout of
              (ok, reason, statusCode) \<Rightarrow>
                \<lparr>Link = link, Valid = ok, Reason = reason, StatusCode = statusCode\<rparr>)
      else (case checkFile w basePath link of
              (ok, reason) \<Rightarrow>
                \<lparr>Link = link, Valid = ok, Reason = reason, StatusCode = 0\<rparr>))"

subsection \<open>The worker pool\<close>

text \<open>
  \<open>ValidateLinksAsync\<close> starts \<open>maxWorkers\<close> goroutines running \<open>worker\<close>, one goroutine that
  sends every link on \<open>linkChan\<close> and closes it, one that waits for the wait group and
  closes \<open>resultChan\<close>, and itself collects from \<open>resultChan\<close> until it is closed and
  empty. The pool is modelled as an interleaving of the atomic steps of these goroutines:
  the state holds the links not yet sent, both buffered channels (contents, closed flag,
  capacity \<open>len(links)\<close>), what each worker is doing, and the slice collected so far.
\<close>

datatype wstate = Idle | Holding LinkStatus | Done

record pool =
  pending :: "string list"
  linkChan :: "string list"
  linkClosed :: bool
  workers :: "wstate list"
  resultChan :: "LinkStatus list"
  resultClosed :: bool
  results :: "LinkStatus list"
  returned :: bool
  capacity :: nat

text \<open>
  The steps: the sender sends the next link (\<open>SendLink\<close>) or closes the channel after the
  last one (\<open>CloseLinks\<close>); worker \<open>i\<close> receives a link and checks it (\<open>Receive i\<close>), sends
  its status (\<open>Emit i\<close>), or leaves its \<open>range\<close> loop when \<open>linkChan\<close> is closed and empty and
  calls \<open>wg.Done()\<close> (\<open>Exit i\<close>); the waiting goroutine closes \<open>resultChan\<close> once every
  worker is done (\<open>CloseResults\<close>); the caller appends a received status (\<open>Collect\<close>) or
  leaves its \<open>range\<close> loop and returns (\<open>Return\<close>).
\<close>

datatype action =
  SendLink | CloseLinks | Receive nat | Emit nat | Exit nat | CloseResults | Collect | Return

fun step :: "(string \<Rightarrow> LinkStatus) \<Rightarrow> pool \<Rightarrow> action \<Rightarrow> pool option" where
  "step chk s SendLink =
     (case pending s of
        [] \<Rightarrow> None
      | link # rest \<Rightarrow>
          if length (linkChan s) < capacity s
          then Some (s\<lparr>pending := rest, linkChan := linkChan s @ [link]\<rparr>)
          else None)"
| "step chk s CloseLinks =
     (if pending s = [] \<and> \<not> linkClosed s then Some (s\<lparr>linkClosed := True\<rparr>) else None)"
| "step chk s (Receive i) =
     (if i < length (workers s) \<and> workers s ! i = Idle
      then (case linkChan s of
              [] \<Rightarrow> None
            | link # rest \<Rightarrow>
                Some (s\<lparr>linkChan := rest, workers := (workers s)[i := Holding (chk link)]\<rparr>))
      else None)"
| "step chk s (Emit i) =
     (if i < length (workers s)
      then (case workers s ! i of
              Holding status \<Rightarrow>
                if length (resultChan s) < capacity s
                then Some (s\<lparr>resultChan := resultChan s @ [status],
                             workers := (workers s)[i := Idle]\<rparr>)
                else None
            | _ \<Rightarrow> None)
      else None)"
| "step chk s (Exit i) =
     (if i < length (workers s) \<and> workers s ! i = Idle \<and> linkChan s = [] \<and> linkClosed s
      then Some (s\<lparr>workers := (workers s)[i := Done]\<rparr>)
      else None)"
| "step chk s CloseResults =
     (if list_all (\<lambda>w. w = Done) (workers s) \<and> \<not> resultClosed s
      then Some (s\<lparr>resultClosed := True\<rparr>)
      else None)"
| "step chk s Collect =
     (if returned s then None
      else (case resultChan s of
              [] \<Rightarrow> None
            | status # rest \<Rightarrow> Some (s\<lparr>resultChan := rest, results := results s @ [status]\<rparr>)))"
| "step chk s Return =
     (if \<not> returned s \<and> resultChan s = [] \<and> resultClosed s
      then Some (s\<lparr>returned := True\<rparr>)
      else None)"

fun run :: "(string \<Rightarrow> LinkStatus) \<Rightarrow> pool \<Rightarrow> action list \<Rightarrow> pool option" where
  "run chk s [] = Some s"
| "run chk s (a # sched) = (case step chk s a of None \<Rightarrow> None | Some s' \<Rightarrow> run chk s' sched)"

text \<open>
  The state once every goroutine has been started: \<open>for i := 0; i < maxWorkers; i++\<close>
  starts no worker when \<open>maxWorkers <= 0\<close>.
\<close>

definition start :: "string list \<Rightarrow> int \<Rightarrow> pool" where
  "start links maxWorkers =
     \<lparr>pending = links, linkChan = [], linkClosed = False,
      workers = replicate (nat maxWorkers) Idle,
      resultChan = [], resultClosed = False, results = [], returned = False,
      capacity = length links\<rparr>"

text \<open>
  \<open>ValidateLinksAsync\<close> under a schedule, the order in which the goroutines take their
  steps: \<open>None\<close> when the schedule is not an execution (a step was not enabled) or stops
  before the function has returned, otherwise the slice returned.
\<close>

definition ValidateLinksAsync ::
  "world \<Rightarrow> string list \<Rightarrow> string \<Rightarrow> int \<Rightarrow> int \<Rightarrow> action list \<Rightarrow> LinkStatus list option" where
  "ValidateLinksAsync w links basePath timeout maxWorkers sched =
     (if length links = 0 then Some []
      else (case run (worker_status w basePath timeout) (start links maxWorkers) sched of
              None \<Rightarrow> None
            | Some s \<Rightarrow> if returned s then Some (results s) else None))"

section \<open>The cli package\<close>

text \<open>
  A compiled ignore pattern is represented by its \<open>MatchString\<close>. \<open>Timeout\<close> is a
  \<open>time.Duration\<close>, a number of nanoseconds.
\<close>

record Config =
  Recursive :: bool
  IgnoreList :: "string list"
  Timeout :: int
  OnlyDead :: bool
  Format :: string
  InputPaths :: "string list"
  InputURLs :: "string list"
  IgnoreRegex :: "(string \<Rightarrow> bool) list"
  Workers :: int
  Debug :: bool

text \<open>
  \<open>Result\<close> of the source; its field \<open>StatusCode\<close> is \<open>RStatusCode\<close> here, the name being
  taken by \<open>LinkStatus\<close>.
\<close>

record Result =
  URL :: string
  Status :: string
  RStatusCode :: int
  Error :: string
  Source :: string
  Line :: int

text \<open>
  \<open>Output\<close> of the source with the fields of its \<open>Summary\<close> struct flattened; \<open>Duration\<close>,
  the wall-clock time of the run, is left out.
\<close>

record Output =
  Summary_Total :: int
  Summary_Valid :: int
  Summary_Invalid :: int
  Results :: "Result list"

definition IsURLIgnored :: "Config \<Rightarrow> string \<Rightarrow> bool" where
  "IsURLIgnored config url = list_ex (\<lambda>regex. regex url) (IgnoreRegex config)"

text \<open>
  The body of the loop that ends both \<open>processMarkdownFile\<close> and \<open>processURL\<close>: a
  \<open>Result\<close> literal naming \<open>URL\<close> and \<open>Source\<close> (every other field has Go's zero value),
  then the assignments of either branch.
\<close>

definition status_result :: "string \<Rightarrow> LinkStatus \<Rightarrow> Result" where
  "status_result source status =
     (let result = \<lparr>URL = Link status, Status = '''', RStatusCode = 0, Error = '''',
                     Source = source, Line = 0\<rparr>
      in if Valid status
         then result\<lparr>Status := ''valid'', RStatusCode := StatusCode status\<rparr>
         else result\<lparr>Status := ''invalid'', Error := Reason status,
                     RStatusCode := StatusCode status\<rparr>)"

definition processMarkdownFile ::
  "world \<Rightarrow> Config \<Rightarrow> string \<Rightarrow> action list \<Rightarrow> (string + Result list) option" where
  "processMarkdownFile w config filePath sched =
     (case ExtractLinksFromFile w filePath of
        Inl err \<Rightarrow> Some (Inl (''error extracting links from '' @ filePath @ '': '' @ err))
      | Inr links \<Rightarrow>
          (let filteredLinks = filter (\<lambda>link. \<not> IsURLIgnored config link) links
           in case ValidateLinksAsync w filteredLinks (Dir w filePath) (Timeout config)
                     (Workers config) sched of
                None \<Rightarrow> None
              | Some linkStatuses \<Rightarrow> Some (Inr (map (status_result filePath) linkStatuses))))"

text \<open>The loop of \<open>processURL\<close> that builds \<open>absoluteLinks\<close>.\<close>

fun absoluteLinks :: "world \<Rightarrow> url_URL \<Rightarrow> string list \<Rightarrow> string list" where
  "absoluteLinks w baseURL [] = []"
| "absoluteLinks w baseURL (link # links) =
     (if link = '''' \<or> HasPrefix link ''#'' \<or> HasPrefix link ''javascript:'' \<or>
         HasPrefix link ''mailto:'' \<or> HasPrefix link ''tel:''
      then absoluteLinks w baseURL links
      else (case url_Parse w link of
              Inl _ \<Rightarrow> absoluteLinks w baseURL links
            | Inr linkURL \<Rightarrow>
                (let absoluteURL = ResolveReference w baseURL linkURL
                 in if Scheme absoluteURL = ''http'' \<or> Scheme absoluteURL = ''https''
                    then URL_String w absoluteURL # absoluteLinks w baseURL links
                    else absoluteLinks w baseURL links)))"

definition processURL ::
  "world \<Rightarrow> Config \<Rightarrow> string \<Rightarrow> action list \<Rightarrow> (string + Result list) option" where
  "processURL w config inputURL sched =
     (case FetchPage w inputURL (Timeout config) of
        GetFailed err \<Rightarrow> Some (Inl (''error fetching URL '' @ inputURL @ '': '' @ err))
      | ReadFailed err \<Rightarrow> Some (Inl (''error reading response from '' @ inputURL @ '': '' @ err))
      | Body content \<Rightarrow>
          (let links = ExtractLinksFromHTML w content
           in case url_Parse w inputURL of
                Inl err \<Rightarrow> Some (Inl (''error parsing base URL '' @ inputURL @ '': '' @ err))
              | Inr baseURL \<Rightarrow>
                  (let filteredLinks =
                         filter (\<lambda>link. \<not> IsURLIgnored config link) (absoluteLinks w baseURL links)
                   in case ValidateLinksAsync w filteredLinks '''' (Timeout config)
                             (Workers config) sched of
                        None \<Rightarrow> None
                      | Some linkStatuses \<Rightarrow>
                          Some (Inr (map (status_result inputURL) linkStatuses)))))"

text \<open>
  \<open>runRealLinkChecker\<close>. Its two input loops call \<open>processPath\<close> and \<open>processURL\<close>, which
  read files and the network; the outcome of each call is given by the arguments
  \<open>procPath\<close> and \<open>procURL\<close> (\<open>Inl\<close> the error). The first error ends the run;
  \<open>acc\<close> is the slice \<open>results\<close> appended to so far.
\<close>

fun process_inputs ::
  "(string \<Rightarrow> string + Result list) \<Rightarrow> string \<Rightarrow> string list \<Rightarrow> Result list \<Rightarrow> string + Result list" where
  "process_inputs proc what [] acc = Inr acc"
| "process_inputs proc what (input # inputs) acc =
     (case proc input of
        Inl err \<Rightarrow>
          Inl (''error processing '' @ what @ '' '' @ [CHR 0x27] @ input @ [CHR 0x27] @ '': '' @ err)
      | Inr found \<Rightarrow> process_inputs proc what inputs (acc @ found))"

definition runRealLinkChecker ::
  "Config \<Rightarrow> (string \<Rightarrow> string + Result list) \<Rightarrow> (string \<Rightarrow> string + Result list) \<Rightarrow> string + Output" where
  "runRealLinkChecker config procPath procURL =
     (case process_inputs procPath ''path'' (InputPaths config) [] of
        Inl err \<Rightarrow> Inl err
      | Inr fileResults \<Rightarrow>
          (case process_inputs procURL ''URL'' (InputURLs config) fileResults of
             Inl err \<Rightarrow> Inl err
           | Inr allResults \<Rightarrow>
               (let results = (if OnlyDead config
                               then filter (\<lambda>result. Status result = ''invalid'') allResults
                               else allResults);
                    (valid, invalid) =
                      fold (\<lambda>result (valid, invalid).
                              if Status result = ''valid'' then (valid + 1, invalid)
                              else (valid, invalid + 1))
                        results (0, 0)
                in Inr \<lparr>Summary_Total = int (length results), Summary_Valid = valid,
                        Summary_Invalid = invalid, Results = results\<rparr>)))"

section \<open>A concrete world\<close>

text \<open>
  A small world on which the definitions can be run: a server that answers \<open>/ok\<close> with
  200 and \<open>/missing\<close> with 404, a server that refuses \<open>HEAD\<close> with 405, a host that does not
  answer, a chain of eleven redirects \<open>http://hop/\<close>, \<open>http://hop/r\<close>, ... ending in a 200,
  and a directory \<open>docs\<close> holding \<open>README.md\<close> and \<open>test.md\<close>. Further: a host
  \<open>stalled\<close> on which \<open>Client.Timeout\<close> expires, a host \<open>down\<close> that refuses the
  connection, and a server \<open>gethop\<close> that drops every \<open>HEAD\<close> and answers \<open>GET\<close> with a
  chain of eleven redirects. For these the error text is that of Go's \<open>url.Error\<close>: the
  operation, the quoted URL, and the cause.
\<close>

definition url_error :: "http_method \<Rightarrow> string \<Rightarrow> string \<Rightarrow> string" where
  "url_error m url cause =
     (case m of HEAD \<Rightarrow> ''Head'' | GET \<Rightarrow> ''Get'')
       @ '' '' @ [CHR 0x22] @ url @ [CHR 0x22] @ '': '' @ cause"

definition example_RoundTrip :: "http_method \<Rightarrow> string \<Rightarrow> int \<Rightarrow> string + Response" where
  "example_RoundTrip m url timeout =
     (if url = ''http://site/ok'' then Inr (Response 200 ''200 OK'' None)
      else if url = ''http://site/missing'' then Inr (Response 404 ''404 Not Found'' None)
      else if url = ''http://nohead/'' then
        (case m of
           HEAD \<Rightarrow> Inr (Response 405 ''405 Method Not Allowed'' None)
         | GET \<Rightarrow> Inr (Response 200 ''200 OK'' None))
      else if url = ''http://slow/'' then Inl ''dial tcp 10.0.0.1:80: i/o timeout''
      else if url = ''http://stalled/'' then
        Inl (url_error m url
               ''context deadline exceeded (Client.Timeout exceeded while awaiting headers)'')
      else if url = ''http://down/timeout-policy'' then
        Inl (url_error m url ''dial tcp 10.0.0.2:80: connect: connection refused'')
      else if HasPrefix url ''http://gethop/'' then
        (case m of
           HEAD \<Rightarrow> Inl (url_error m url ''EOF'')
         | GET \<Rightarrow>
             if length url < 25 then Inr (Response 302 ''302 Found'' (Some (url @ ''r'')))
             else Inr (Response 200 ''200 OK'' None))
      else if HasPrefix url ''http://hop/'' then
        (if length url < 22 then Inr (Response 302 ''302 Found'' (Some (url @ ''r'')))
         else Inr (Response 200 ''200 OK'' None))
      else Inl ''dial tcp 10.0.0.2:80: connect: connection refused'')"

definition example_world :: world where
  "example_world =
     \<lparr>RoundTrip = example_RoundTrip,
      Stat = (\<lambda>p. if p = ''docs/test.md'' \<or> p = ''docs/README.md'' \<or> p = ''/etc/hosts''
                  then None
                  else Some (''stat '' @ p @ '': no such file or directory'')),
      IsAbs = (\<lambda>p. HasPrefix p ''/''),
      Join = (\<lambda>dir p. dir @ ''/'' @ p),
      Dir = (\<lambda>p. if p = ''docs/README.md'' then ''docs'' else ''.''),
      ExtractLinksFromFile =
        (\<lambda>p. if p = ''docs/README.md'' then Inr [''#section'']
             else Inl (''open '' @ p @ '': no such file or directory'')),
      FetchPage = (\<lambda>url timeout. if url = ''http://site/'' then Body ''<html>''
                                  else GetFailed ''connection refused''),
      ExtractLinksFromHTML = (\<lambda>content. [''#top'', ''http://site/ok'']),
      url_Parse = (\<lambda>s. if HasPrefix s ''http:'' then Inr (url_URL ''http'' (drop 5 s))
                        else Inr (url_URL '''' s)),
      ResolveReference = (\<lambda>base ref. if Scheme ref = '''' then url_URL (Scheme base) (Rest base @ Rest ref)
                                     else ref),
      URL_String = (\<lambda>u. if Scheme u = '''' then Rest u else Scheme u @ '':'' @ Rest u)\<rparr>"

definition example_config :: Config where
  "example_config =
     \<lparr>Recursive = False, IgnoreList = [], Timeout = 30000000000, OnlyDead = True,
      Format = ''text'', InputPaths = [''docs/README.md''], InputURLs = [''http://site/''],
      IgnoreRegex = [], Workers = 2, Debug = False\<rparr>"

text \<open>Two schedules of a pool of two workers: for two links, and for one.\<close>

definition example_schedule :: "action list" where
  "example_schedule =
     [SendLink, SendLink, CloseLinks, Receive 1, Receive 0, Emit 0, Exit 0, Emit 1,
      Collect, Exit 1, CloseResults, Collect, Return]"

definition one_link_schedule :: "action list" where
  "one_link_schedule =
     [SendLink, CloseLinks, Receive 1, Exit 0, Emit 1, Collect, Exit 1, CloseResults, Return]"

text \<open>
  Statuses tagged with the document they come from: two valid and one invalid from a
  markdown file, two invalid from a web page.
\<close>

definition example_path_batch :: "(string \<times> LinkStatus) list" where
  "example_path_batch =
     [(''docs/README.md'', \<lparr>Link = ''test.md'', Valid = True, Reason = '''', StatusCode = 0\<rparr>),
      (''docs/README.md'', \<lparr>Link = ''http://site/ok'', Valid = True, Reason = '''', StatusCode = 200\<rparr>),
      (''docs/README.md'', \<lparr>Link = ''gone.md'', Valid = False,
         Reason = ''stat docs/gone.md: no such file or directory'', StatusCode = 0\<rparr>)]"

definition example_url_batch :: "(string \<times> LinkStatus) list" where
  "example_url_batch =
     [(''http://site/'', \<lparr>Link = ''http://site/missing'', Valid = False,
         Reason = ''404 Not Found'', StatusCode = 404\<rparr>),
      (''http://site/'', \<lparr>Link = ''http://slow/'', Valid = False,
         Reason = ''Request timeout'', StatusCode = 0\<rparr>)]"

section \<open>Invariant and measure of the worker pool\<close>

text \<open>
  The statuses that workers have computed and not yet sent, the invariant of the pool for
  the batch \<open>links\<close> and \<open>n\<close> workers, and the number of steps the pool has left.
\<close>

definition holding :: "wstate \<Rightarrow> LinkStatus list" where
  "holding w = (case w of Holding status \<Rightarrow> [status] | _ \<Rightarrow> [])"

definition held :: "wstate list \<Rightarrow> LinkStatus list" where
  "held ws = concat (map holding ws)"

definition pool_inv :: "(string \<Rightarrow> LinkStatus) \<Rightarrow> string list \<Rightarrow> nat \<Rightarrow> pool \<Rightarrow> bool" where
  "pool_inv chk links n s \<longleftrightarrow>
     image_mset chk (mset (pending s) + mset (linkChan s)) + mset (held (workers s))
       + mset (resultChan s) + mset (results s) = image_mset chk (mset links)
     \<and> capacity s = length links
     \<and> length (workers s) = n
     \<and> (linkClosed s \<longrightarrow> pending s = [])
     \<and> (Done \<in> set (workers s) \<longrightarrow> linkClosed s \<and> linkChan s = [])
     \<and> (resultClosed s \<longrightarrow> list_all (\<lambda>w. w = Done) (workers s))
     \<and> (returned s \<longrightarrow> resultClosed s \<and> resultChan s = [])
     \<and> (n = 0 \<longrightarrow> resultChan s = [] \<and> results s = [])"

definition remaining :: "pool \<Rightarrow> nat" where
  "remaining s =
     4 * length (pending s) + 3 * length (linkChan s) + 2 * length (held (workers s))
     + length (resultChan s) + (if linkClosed s then 0 else 1)
     + length (filter (\<lambda>w. w \<noteq> Done) (workers s))
     + (if resultClosed s then 0 else 1) + (if returned s then 0 else 1)"

section \<open>Properties of the single-link checks\<close>

lemma Contains_Request_timeout: "Contains ''Request timeout'' ''timeout''"
  by (simp add: HasPrefix_def)

text \<open>
  The test for a timeout compares bytes: the message Go's client gives when
  \<open>Client.Timeout\<close> expires spells the word with a capital letter and is not matched.
\<close>

lemma Contains_case_sensitive:
  "\<not> Contains ''context deadline exceeded (Client.Timeout exceeded while awaiting headers)'' ''timeout''"
  by code_simp

text \<open>
  What \<open>checkHTTP\<close> computes. When it obtains a response, from \<open>HEAD\<close> or, after \<open>HEAD\<close>
  failed, from \<open>GET\<close>, a status code in \<open>[200, 400)\<close> gives \<open>valid = true\<close>, the code and an
  empty reason; a code of 400 or more, or below 200, gives \<open>valid = false\<close>, the status
  line as reason, and the code. When \<open>HEAD\<close> and \<open>GET\<close> both fail with a transport error
  the verdict is \<open>valid = false\<close> with status code 0, and the reason is \<open>Request timeout\<close>
  exactly when the text of the error of \<open>GET\<close> contains the bytes \<open>timeout\<close>; otherwise it
  is that text.
\<close>

lemma checkHTTP_verdict:
  "((client_Head w timeout url = Inr resp \<or>
     (client_Head w timeout url = Inl e \<and> client_Get w timeout url = Inr resp)) \<longrightarrow>
      (200 \<le> resp_StatusCode resp \<and> resp_StatusCode resp < 400 \<longrightarrow>
         checkHTTP w url timeout = (True, '''', resp_StatusCode resp)) \<and>
      (resp_StatusCode resp \<ge> 400 \<or> resp_StatusCode resp < 200 \<longrightarrow>
         checkHTTP w url timeout = (False, resp_Status resp, resp_StatusCode resp))) \<and>
   (client_Head w timeout url = Inl e \<and> client_Get w timeout url = Inl err \<longrightarrow>
      checkHTTP w url timeout =
        (False, if Contains err ''timeout'' then ''Request timeout'' else err, 0) \<and>
      (fst (snd (checkHTTP w url timeout)) = ''Request timeout'' \<longleftrightarrow> Contains err ''timeout''))"
  using Contains_Request_timeout by (auto simp: checkHTTP_def)

lemma checkHTTP_verdict_example:
  "client_Head example_world 5 ''http://site/missing'' = Inr (Response 404 ''404 Not Found'' None)
   \<and> checkHTTP example_world ''http://site/missing'' 5 = (False, ''404 Not Found'', 404)
   \<and> client_Head example_world 5 ''http://slow/'' = Inl ''dial tcp 10.0.0.1:80: i/o timeout''
   \<and> client_Get example_world 5 ''http://slow/'' = Inl ''dial tcp 10.0.0.1:80: i/o timeout''
   \<and> checkHTTP example_world ''http://slow/'' 5 = (False, ''Request timeout'', 0)"
proof -
  have h1: "client_Head example_world 5 ''http://site/missing'' = Inr (Response 404 ''404 Not Found'' None)"
    by code_simp
  have h2: "client_Head example_world 5 ''http://slow/'' = Inl ''dial tcp 10.0.0.1:80: i/o timeout''"
    by code_simp
  have h3: "client_Get example_world 5 ''http://slow/'' = Inl ''dial tcp 10.0.0.1:80: i/o timeout''"
    by code_simp
  have c: "Contains ''dial tcp 10.0.0.1:80: i/o timeout'' ''timeout''"
    by code_simp
  from checkHTTP_verdict[of example_world 5 "''http://site/missing''" "Response 404 ''404 Not Found'' None"] h1
  have a: "checkHTTP example_world ''http://site/missing'' 5 = (False, ''404 Not Found'', 404)"
    by simp
  from checkHTTP_verdict[of example_world 5 "''http://slow/''" _ "''dial tcp 10.0.0.1:80: i/o timeout''"
      "''dial tcp 10.0.0.1:80: i/o timeout''"] h2 h3 c
  have b: "checkHTTP example_world ''http://slow/'' 5 = (False, ''Request timeout'', 0)"
    by simp
  from h1 h2 h3 a b show ?thesis by blast
qed

text \<open>
  Claim C5. The timeout half of the claim fails on the code. On the host where
  \<open>Client.Timeout\<close> expires, \<open>HEAD\<close> and \<open>GET\<close> both fail with Go's timeout error, whose text
  spells the word \<open>Timeout\<close>: the substring test misses it and the reason is the raw
  text, not \<open>Request timeout\<close>. On the host that refuses the connection, the URL quoted
  in the error text contains \<open>timeout\<close>: the reason is \<open>Request timeout\<close> although nothing
  timed out.
\<close>

theorem timeout_detection_by_substring:
  "client_Head example_world 30000000000 ''http://stalled/''
     = Inl (url_error HEAD ''http://stalled/''
              ''context deadline exceeded (Client.Timeout exceeded while awaiting headers)'')
   \<and> client_Get example_world 30000000000 ''http://stalled/''
     = Inl (url_error GET ''http://stalled/''
              ''context deadline exceeded (Client.Timeout exceeded while awaiting headers)'')
   \<and> checkHTTP example_world ''http://stalled/'' 30000000000
     = (False,
        url_error GET ''http://stalled/''
          ''context deadline exceeded (Client.Timeout exceeded while awaiting headers)'',
        0)
   \<and> fst (snd (checkHTTP example_world ''http://stalled/'' 30000000000)) \<noteq> ''Request timeout''
   \<and> client_Get example_world 30000000000 ''http://down/timeout-policy''
     = Inl (url_error GET ''http://down/timeout-policy''
              ''dial tcp 10.0.0.2:80: connect: connection refused'')
   \<and> checkHTTP example_world ''http://down/timeout-policy'' 30000000000
     = (False, ''Request timeout'', 0)"
  by code_simp

text \<open>
  Claim C2. A server answers \<open>HEAD\<close> with 405 and \<open>GET\<close> with 200. \<open>client.Head\<close> returns
  the 405 response with a nil error, so \<open>checkHTTP\<close> never sends the \<open>GET\<close>: the verdict
  is \<open>valid = false\<close> with the status line of the 405, although \<open>GET\<close> would have been
  answered with 200.
\<close>

theorem head_405_no_fallback:
  "checkHTTP example_world ''http://nohead/'' 30000000000 = (False, ''405 Method Not Allowed'', 405)
   \<and> client_Get example_world 30000000000 ''http://nohead/'' = Inr (Response 200 ''200 OK'' None)"
  by (simp add: checkHTTP_def client_Get_def client_Head_def client_do.simps example_world_def
      example_RoundTrip_def shouldRedirect_def)

lemma client_do_capped:
  assumes chain: "\<forall>k<10. \<exists>code status.
      RoundTrip w m (chain k) timeout = Inr (Response code status (Some (chain (Suc k))))
      \<and> code \<in> {301, 302, 303, 307, 308}"
  shows "j \<le> 9 \<Longrightarrow> client_do w timeout m (chain (9 - j)) (9 - j) = RoundTrip w m (chain 9) timeout"
proof (induction j)
  case 0
  have "(9::nat) < 10" by simp
  with chain obtain code status where
    r: "RoundTrip w m (chain 9) timeout = Inr (Response code status (Some (chain (Suc 9))))"
       "code \<in> {301, 302, 303, 307, 308}"
    by blast
  then show ?case
    by (subst client_do.simps) (simp add: shouldRedirect_def CheckRedirect_def)
next
  case (Suc j)
  then have lt: "9 - Suc j < 10" and j: "j \<le> 9" and e: "Suc (9 - Suc j) = 9 - j" by simp_all
  from chain lt obtain code status where
    r: "RoundTrip w m (chain (9 - Suc j)) timeout = Inr (Response code status (Some (chain (Suc (9 - Suc j)))))"
       "code \<in> {301, 302, 303, 307, 308}"
    by blast
  have nc: "\<not> CheckRedirect (Suc (9 - Suc j))" using Suc.prems by (simp add: CheckRedirect_def)
  have "client_do w timeout m (chain (9 - Suc j)) (9 - Suc j)
        = client_do w timeout m (chain (Suc (9 - Suc j))) (Suc (9 - Suc j))"
    using r nc by (subst client_do.simps) (simp add: shouldRedirect_def)
  also have "\<dots> = RoundTrip w m (chain 9) timeout"
    using Suc.IH[OF j] e by simp
  finally show ?case .
qed

text \<open>
  Claim C6. Hops are counted as exchanges, the first request being hop 1. The check
  reaches the cap either on its \<open>HEAD\<close> request or, when \<open>HEAD\<close> fails with a transport
  error, on the \<open>GET\<close> that replaces it. In both cases, when the first ten responses of
  the chain are redirects (the chain exceeds ten hops), the client returns the tenth
  response received, the answer to the request for \<open>chain 9\<close>, with a nil error: nine
  redirects have been followed and the tenth is not. \<open>checkHTTP\<close> classifies that
  response as it is: its code is a redirect code, inside \<open>[200, 400)\<close>, so the link is
  valid, with an empty reason and that code.
\<close>

theorem redirect_cap:
  assumes "\<forall>k<10. \<exists>code status.
      RoundTrip w m (chain k) timeout = Inr (Response code status (Some (chain (Suc k))))
      \<and> code \<in> {301, 302, 303, 307, 308}"
    and "m = HEAD \<or> (m = GET \<and> (\<exists>e. client_Head w timeout (chain 0) = Inl e))"
  shows "\<exists>resp. RoundTrip w m (chain 9) timeout = Inr resp
           \<and> (case m of HEAD \<Rightarrow> client_Head w timeout (chain 0)
                       | GET \<Rightarrow> client_Get w timeout (chain 0)) = Inr resp
           \<and> checkHTTP w (chain 0) timeout = (True, '''', resp_StatusCode resp)"
proof -
  have "(9::nat) < 10" by simp
  with assms(1) obtain code status where
    r: "RoundTrip w m (chain 9) timeout = Inr (Response code status (Some (chain (Suc 9))))"
       "code \<in> {301, 302, 303, 307, 308}"
    by blast
  from client_do_capped[OF assms(1), of 9]
  have d: "client_do w timeout m (chain 0) 0 = Inr (Response code status (Some (chain (Suc 9))))"
    using r by simp
  from r(2) have c: "200 \<le> code \<and> code < 400" by auto
  show ?thesis
  proof (cases m)
    case HEAD
    with d have h: "client_Head w timeout (chain 0) = Inr (Response code status (Some (chain (Suc 9))))"
      by (simp add: client_Head_def)
    with c have "checkHTTP w (chain 0) timeout = (True, '''', code)"
      by (simp add: checkHTTP_def)
    with r h HEAD show ?thesis by simp
  next
    case GET
    with assms(2) obtain e where e: "client_Head w timeout (chain 0) = Inl e" by auto
    from GET d have g: "client_Get w timeout (chain 0) = Inr (Response code status (Some (chain (Suc 9))))"
      by (simp add: client_Get_def)
    with e c have "checkHTTP w (chain 0) timeout = (True, '''', code)"
      by (simp add: checkHTTP_def)
    with r g GET show ?thesis by simp
  qed
qed

theorem redirect_cap_witness:
  "client_Head example_world 5 ''http://hop/''
     = Inr (Response 302 ''302 Found'' (Some ''http://hop/rrrrrrrrrr''))
   \<and> checkHTTP example_world ''http://hop/'' 5 = (True, '''', 302)
   \<and> client_Head example_world 5 ''http://gethop/'' = Inl (url_error HEAD ''http://gethop/'' ''EOF'')
   \<and> client_Get example_world 5 ''http://gethop/''
     = Inr (Response 302 ''302 Found'' (Some ''http://gethop/rrrrrrrrrr''))
   \<and> checkHTTP example_world ''http://gethop/'' 5 = (True, '''', 302)"
proof -
  let ?chain = "\<lambda>k. ''http://hop/'' @ replicate k (CHR ''r'')"
  have hyp: "\<forall>k<10. \<exists>code status.
      RoundTrip example_world HEAD (?chain k) 5 = Inr (Response code status (Some (?chain (Suc k))))
      \<and> code \<in> {301, 302, 303, 307, 308}"
    by (simp add: example_world_def example_RoundTrip_def HasPrefix_def replicate_append_same)
  have r: "RoundTrip example_world HEAD (?chain 9) 5
             = Inr (Response 302 ''302 Found'' (Some ''http://hop/rrrrrrrrrr''))"
    by code_simp
  have a: "client_Head example_world 5 ''http://hop/''
             = Inr (Response 302 ''302 Found'' (Some ''http://hop/rrrrrrrrrr''))
           \<and> checkHTTP example_world ''http://hop/'' 5 = (True, '''', 302)"
    using redirect_cap[of example_world HEAD ?chain 5, OF hyp] r by simp
  let ?gchain = "\<lambda>k. ''http://gethop/'' @ replicate k (CHR ''r'')"
  have ghyp: "\<forall>k<10. \<exists>code status.
      RoundTrip example_world GET (?gchain k) 5 = Inr (Response code status (Some (?gchain (Suc k))))
      \<and> code \<in> {301, 302, 303, 307, 308}"
    by (simp add: example_world_def example_RoundTrip_def HasPrefix_def replicate_append_same)
  have gh: "client_Head example_world 5 ''http://gethop/'' = Inl (url_error HEAD ''http://gethop/'' ''EOF'')"
    by code_simp
  then have g2: "GET = HEAD \<or> (GET = GET \<and> (\<exists>e. client_Head example_world 5 (?gchain 0) = Inl e))"
    by simp
  have gr: "RoundTrip example_world GET (?gchain 9) 5
             = Inr (Response 302 ''302 Found'' (Some ''http://gethop/rrrrrrrrrr''))"
    by code_simp
  have b: "client_Get example_world 5 ''http://gethop/''
             = Inr (Response 302 ''302 Found'' (Some ''http://gethop/rrrrrrrrrr''))
           \<and> checkHTTP example_world ''http://gethop/'' 5 = (True, '''', 302)"
    using redirect_cap[of example_world GET ?gchain 5, OF ghyp g2] gr by simp
  from a gh b show ?thesis by blast
qed

text \<open>
  Claim C7. For a link that \<open>worker\<close> treats as a file (it begins with neither \<open>http://\<close>
  nor \<open>https://\<close>), the path checked is the link itself when it is absolute and
  \<open>filepath.Join(basePath, link)\<close> otherwise; the status is valid if and only if
  \<open>os.Stat\<close> of that path succeeds, its status code is always 0, and when \<open>os.Stat\<close> fails
  the status is invalid with the text of the error as reason.
\<close>

theorem checkFile_verdict:
  "\<not> (HasPrefix link ''http://'' \<or> HasPrefix link ''https://'') \<Longrightarrow>
   (let status = worker_status w basePath timeout link;
        fullPath = (if IsAbs w link then link else Join w basePath link)
    in Link status = link \<and> StatusCode status = 0 \<and>
       (Valid status \<longleftrightarrow> Stat w fullPath = None) \<and>
       (\<forall>err. Stat w fullPath = Some err \<longrightarrow> \<not> Valid status \<and> Reason status = err))"
  by (auto simp: worker_status_def checkFile_def Let_def split: option.splits)

theorem checkFile_verdict_witness:
  "\<not> (HasPrefix ''test.md'' ''http://'' \<or> HasPrefix ''test.md'' ''https://'')
   \<and> Stat example_world (Join example_world ''docs'' ''test.md'') = None
   \<and> Valid (worker_status example_world ''docs'' 5 ''test.md'')
   \<and> StatusCode (worker_status example_world ''docs'' 5 ''test.md'') = 0
   \<and> \<not> (HasPrefix ''gone.md'' ''http://'' \<or> HasPrefix ''gone.md'' ''https://'')
   \<and> Stat example_world (Join example_world ''docs'' ''gone.md'')
       = Some ''stat docs/gone.md: no such file or directory''
   \<and> \<not> Valid (worker_status example_world ''docs'' 5 ''gone.md'')
   \<and> Reason (worker_status example_world ''docs'' 5 ''gone.md'')
       = ''stat docs/gone.md: no such file or directory''"
proof -
  have h: "\<not> (HasPrefix ''test.md'' ''http://'' \<or> HasPrefix ''test.md'' ''https://'')"
    by code_simp
  have a: "\<not> IsAbs example_world ''test.md''" by code_simp
  have s: "Stat example_world (Join example_world ''docs'' ''test.md'') = None" by code_simp
  from checkFile_verdict[OF h, of example_world "''docs''" 5] a s
  have ok: "Valid (worker_status example_world ''docs'' 5 ''test.md'')
      \<and> StatusCode (worker_status example_world ''docs'' 5 ''test.md'') = 0"
    by (simp add: Let_def)
  have h': "\<not> (HasPrefix ''gone.md'' ''http://'' \<or> HasPrefix ''gone.md'' ''https://'')"
    by code_simp
  have a': "\<not> IsAbs example_world ''gone.md''" by code_simp
  have s': "Stat example_world (Join example_world ''docs'' ''gone.md'')
       = Some ''stat docs/gone.md: no such file or directory''" by code_simp
  from checkFile_verdict[OF h', of example_world "''docs''" 5] a' s'
  have gone: "\<not> Valid (worker_status example_world ''docs'' 5 ''gone.md'')
      \<and> Reason (worker_status example_world ''docs'' 5 ''gone.md'')
          = ''stat docs/gone.md: no such file or directory''"
    by (simp add: Let_def)
  from h s ok h' s' gone show ?thesis by blast
qed

section \<open>Properties of the worker pool\<close>

subsection \<open>Workers holding a status\<close>

lemma held_append: "held (xs @ ys) = held xs @ held ys"
  by (simp add: held_def)

lemma held_Cons: "held (x # xs) = holding x @ held xs"
  by (simp add: held_def)

lemma held_update:
  assumes "i < length ws"
  shows "mset (held (ws[i := w])) + mset (holding (ws ! i)) = mset (held ws) + mset (holding w)"
proof -
  have a: "ws = take i ws @ ws ! i # drop (Suc i) ws"
    using assms by (simp add: id_take_nth_drop)
  have b: "ws[i := w] = take i ws @ w # drop (Suc i) ws"
    using assms by (simp add: upd_conv_take_nth_drop)
  have "mset (held ws) = mset (held (take i ws)) + mset (holding (ws ! i)) + mset (held (drop (Suc i) ws))"
    by (subst a) (simp add: held_append held_Cons)
  moreover have "mset (held (ws[i := w])) = mset (held (take i ws)) + mset (holding w) + mset (held (drop (Suc i) ws))"
    by (subst b) (simp add: held_append held_Cons)
  ultimately show ?thesis by simp
qed

lemma held_update_length:
  assumes "i < length ws"
  shows "length (held (ws[i := w])) + length (holding (ws ! i)) = length (held ws) + length (holding w)"
proof -
  have "size (mset (held (ws[i := w])) + mset (holding (ws ! i))) = size (mset (held ws) + mset (holding w))"
    using held_update[OF assms] by simp
  then show ?thesis by simp
qed

lemma busy_update:
  assumes "i < length ws"
  shows "length (filter (\<lambda>w. w \<noteq> Done) (ws[i := w])) + (if ws ! i \<noteq> Done then 1 else 0)
       = length (filter (\<lambda>w. w \<noteq> Done) ws) + (if w \<noteq> Done then 1 else 0)"
proof -
  have a: "ws = take i ws @ ws ! i # drop (Suc i) ws"
    using assms by (simp add: id_take_nth_drop)
  have b: "ws[i := w] = take i ws @ w # drop (Suc i) ws"
    using assms by (simp add: upd_conv_take_nth_drop)
  have "length (filter (\<lambda>w. w \<noteq> Done) ws) =
        length (filter (\<lambda>w. w \<noteq> Done) (take i ws)) + (if ws ! i \<noteq> Done then 1 else 0)
        + length (filter (\<lambda>w. w \<noteq> Done) (drop (Suc i) ws))"
    by (subst a) simp
  moreover have "length (filter (\<lambda>w. w \<noteq> Done) (ws[i := w])) =
        length (filter (\<lambda>w. w \<noteq> Done) (take i ws)) + (if w \<noteq> Done then 1 else 0)
        + length (filter (\<lambda>w. w \<noteq> Done) (drop (Suc i) ws))"
    by (subst b) simp
  ultimately show ?thesis by simp
qed

lemma Done_update:
  assumes "i < length ws" "ws ! i \<noteq> Done" "w \<noteq> Done" "Done \<in> set (ws[i := w])"
  shows "Done \<in> set ws"
proof -
  from assms(4) obtain j where j: "j < length ws" "ws[i := w] ! j = Done"
    by (auto simp: in_set_conv_nth)
  with assms have "j \<noteq> i" by auto
  with j have "ws ! j = Done" by simp
  with j(1) show ?thesis by (auto simp: in_set_conv_nth)
qed

lemma all_Done_update:
  assumes "i < length ws" "list_all (\<lambda>w. w = Done) ws"
  shows "ws ! i = Done"
  using assms by (simp add: list_all_length)

lemma wstate_cases:
  "Idle \<in> set ws \<or> (\<exists>status. Holding status \<in> set ws) \<or> list_all (\<lambda>w. w = Done) ws"
proof (cases "list_all (\<lambda>w. w = Done) ws")
  case True
  then show ?thesis by simp
next
  case False
  then obtain x where x: "x \<in> set ws" "x \<noteq> Done" by (auto simp: list_all_iff)
  show ?thesis
  proof (cases x)
    case Idle
    with x show ?thesis by blast
  next
    case (Holding status)
    with x show ?thesis by blast
  next
    case Done
    with x show ?thesis by blast
  qed
qed

lemma held_member:
  assumes "Holding status \<in> set ws"
  shows "held ws \<noteq> []"
  using assms by (auto simp: held_def holding_def intro!: bexI[of _ "Holding status"])

subsection \<open>Every step uses up one unit of the measure\<close>

lemma step_remaining:
  assumes "step chk s a = Some s'"
  shows "remaining s = Suc (remaining s')"
proof (cases a)
  case SendLink
  with assms show ?thesis by (auto simp: remaining_def split: list.splits if_splits)
next
  case CloseLinks
  with assms show ?thesis by (auto simp: remaining_def split: list.splits if_splits)
next
  case (Receive i)
  with assms obtain link rest where h: "i < length (workers s)" "workers s ! i = Idle" "linkChan s = link # rest"
    "s' = s\<lparr>linkChan := rest, workers := (workers s)[i := Holding (chk link)]\<rparr>"
    by (auto split: list.splits if_splits)
  from held_update_length[OF h(1), of "Holding (chk link)"] busy_update[OF h(1), of "Holding (chk link)"] h
  show ?thesis by (simp add: remaining_def holding_def)
next
  case (Emit i)
  with assms obtain status where h: "i < length (workers s)" "workers s ! i = Holding status"
    "s' = s\<lparr>resultChan := resultChan s @ [status], workers := (workers s)[i := Idle]\<rparr>"
    by (auto split: wstate.splits if_splits)
  from held_update_length[OF h(1), of Idle] busy_update[OF h(1), of Idle] h
  show ?thesis by (simp add: remaining_def holding_def)
next
  case (Exit i)
  with assms have h: "i < length (workers s)" "workers s ! i = Idle"
    "s' = s\<lparr>workers := (workers s)[i := Done]\<rparr>"
    by (auto split: if_splits)
  from held_update_length[OF h(1), of Done] busy_update[OF h(1), of Done] h
  show ?thesis by (simp add: remaining_def holding_def)
next
  case CloseResults
  with assms show ?thesis by (auto simp: remaining_def split: list.splits if_splits)
next
  case Collect
  with assms show ?thesis by (auto simp: remaining_def split: list.splits if_splits)
next
  case Return
  with assms show ?thesis by (auto simp: remaining_def split: list.splits if_splits)
qed

lemma run_remaining:
  "run chk s sched = Some s' \<Longrightarrow> remaining s = length sched + remaining s'"
proof (induction sched arbitrary: s)
  case Nil
  then show ?case by simp
next
  case (Cons a sched)
  then obtain s1 where s1: "step chk s a = Some s1" "run chk s1 sched = Some s'"
    by (auto split: option.splits)
  from step_remaining[OF s1(1)] Cons.IH[OF s1(2)] show ?case by simp
qed

lemma start_remaining: "remaining (start links maxWorkers) = 4 * length links + nat maxWorkers + 3"
  by (simp add: remaining_def start_def held_def holding_def)

subsection \<open>The invariant\<close>

lemma start_inv: "pool_inv chk links (nat maxWorkers) (start links maxWorkers)"
  by (simp add: pool_inv_def start_def held_def holding_def list_all_iff)

lemma step_inv:
  assumes "pool_inv chk links n s" "step chk s a = Some s'"
  shows "pool_inv chk links n s'"
proof (cases a)
  case SendLink
  with assms show ?thesis
    by (auto simp: pool_inv_def split: list.splits if_splits)
next
  case CloseLinks
  with assms show ?thesis
    by (auto simp: pool_inv_def split: list.splits if_splits)
next
  case (Receive i)
  with assms obtain link rest where h: "i < length (workers s)" "workers s ! i = Idle" "linkChan s = link # rest"
    "s' = s\<lparr>linkChan := rest, workers := (workers s)[i := Holding (chk link)]\<rparr>"
    by (auto split: list.splits if_splits)
  from held_update[OF h(1), of "Holding (chk link)"] h
  have m: "mset (held (workers s')) = mset (held (workers s)) + {#chk link#}"
    by (simp add: holding_def)
  have d: "Done \<notin> set (workers s)"
    using assms(1) h(3) by (auto simp: pool_inv_def)
  have d': "Done \<notin> set (workers s')"
    using Done_update[OF h(1), of "Holding (chk link)"] h d by auto
  have nc: "\<not> resultClosed s"
    using assms(1) h(1,2) all_Done_update[OF h(1)] by (auto simp: pool_inv_def)
  show ?thesis
    using assms(1) m d' nc h by (auto simp: pool_inv_def)
next
  case (Emit i)
  with assms obtain status where h: "i < length (workers s)" "workers s ! i = Holding status"
    "s' = s\<lparr>resultChan := resultChan s @ [status], workers := (workers s)[i := Idle]\<rparr>"
    by (auto split: wstate.splits if_splits)
  from held_update[OF h(1), of Idle] h
  have m: "mset (held (workers s)) = mset (held (workers s')) + {#status#}"
    by (simp add: holding_def)
  have d': "Done \<in> set (workers s') \<Longrightarrow> Done \<in> set (workers s)"
    using Done_update[OF h(1), of Idle] h by auto
  have nc: "\<not> resultClosed s"
    using assms(1) h(1,2) all_Done_update[OF h(1)] by (auto simp: pool_inv_def)
  have nr: "\<not> returned s"
    using assms(1) nc by (auto simp: pool_inv_def)
  have n0: "n \<noteq> 0" using assms(1) h(1) by (auto simp: pool_inv_def)
  show ?thesis
    using assms(1) m d' nc nr n0 h by (auto simp: pool_inv_def)
next
  case (Exit i)
  with assms have h: "i < length (workers s)" "workers s ! i = Idle" "linkChan s = []" "linkClosed s"
    "s' = s\<lparr>workers := (workers s)[i := Done]\<rparr>"
    by (auto split: if_splits)
  from held_update[OF h(1), of Done] h
  have m: "mset (held (workers s')) = mset (held (workers s))"
    by (simp add: holding_def)
  have nc: "\<not> resultClosed s"
    using assms(1) h(1,2) all_Done_update[OF h(1)] by (auto simp: pool_inv_def)
  have nr: "\<not> returned s"
    using assms(1) nc by (auto simp: pool_inv_def)
  show ?thesis
    using assms(1) m nc nr h by (auto simp: pool_inv_def)
next
  case CloseResults
  with assms show ?thesis
    by (auto simp: pool_inv_def split: list.splits if_splits)
next
  case Collect
  with assms show ?thesis
    by (auto simp: pool_inv_def split: list.splits if_splits)
next
  case Return
  with assms show ?thesis
    by (auto simp: pool_inv_def split: list.splits if_splits)
qed

lemma run_inv:
  "pool_inv chk links n s \<Longrightarrow> run chk s sched = Some s' \<Longrightarrow> pool_inv chk links n s'"
proof (induction sched arbitrary: s)
  case Nil
  then show ?case by simp
next
  case (Cons a sched)
  then obtain s1 where s1: "step chk s a = Some s1" "run chk s1 sched = Some s'"
    by (auto split: option.splits)
  from Cons.IH[OF step_inv[OF Cons.prems(1) s1(1)] s1(2)] show ?case .
qed

lemma inv_count:
  assumes "pool_inv chk links n s"
  shows "length (pending s) + length (linkChan s) + length (held (workers s))
         + length (resultChan s) + length (results s) = length links"
proof -
  have "size (image_mset chk (mset (pending s) + mset (linkChan s)) + mset (held (workers s))
       + mset (resultChan s) + mset (results s)) = size (image_mset chk (mset links))"
    using assms by (simp add: pool_inv_def)
  then show ?thesis by simp
qed

lemma returned_results:
  assumes inv: "pool_inv chk links n s" and r: "returned s" and n: "n > 0"
  shows "mset (results s) = image_mset chk (mset links)"
proof -
  from inv r have rc: "resultClosed s" "resultChan s = []" by (auto simp: pool_inv_def)
  with inv have ad: "list_all (\<lambda>w. w = Done) (workers s)" by (auto simp: pool_inv_def)
  from inv n have "workers s \<noteq> []" by (auto simp: pool_inv_def)
  with ad have "Done \<in> set (workers s)" by (cases "workers s") auto
  with inv have lc: "linkClosed s" "linkChan s = []" by (auto simp: pool_inv_def)
  with inv have p: "pending s = []" by (auto simp: pool_inv_def)
  from ad have "held (workers s) = []" by (auto simp: held_def holding_def list_all_iff)
  with inv rc lc p show ?thesis by (simp add: pool_inv_def)
qed

lemma results_subset:
  assumes inv: "pool_inv chk links n s"
  shows "set (results s) \<subseteq> chk ` set links"
proof -
  have "mset (results s) \<subseteq># image_mset chk (mset links)"
    using inv unfolding pool_inv_def by (metis mset_subset_eq_add_right)
  then have "set_mset (mset (results s)) \<subseteq> set_mset (image_mset chk (mset links))"
    by (rule set_mset_mono)
  then show ?thesis by simp
qed

subsection \<open>No deadlock, and every run can be completed\<close>

lemma step_progress:
  assumes inv: "pool_inv chk links n s" and nr: "\<not> returned s"
  shows "\<exists>a s'. step chk s a = Some s'"
proof -
  note cnt = inv_count[OF inv]
  have cap: "capacity s = length links" using inv by (simp add: pool_inv_def)
  show ?thesis
  proof (cases "pending s")
    case (Cons link rest)
    with cnt cap have "length (linkChan s) < capacity s" by simp
    with Cons have "step chk s SendLink = Some (s\<lparr>pending := rest, linkChan := linkChan s @ [link]\<rparr>)"
      by simp
    then show ?thesis by blast
  next
    case Nil
    show ?thesis
    proof (cases "linkClosed s")
      case False
      with Nil have "step chk s CloseLinks = Some (s\<lparr>linkClosed := True\<rparr>)" by simp
      then show ?thesis by blast
    next
      case True
      from wstate_cases[of "workers s"] consider
        (idle) "Idle \<in> set (workers s)"
        | (holding) status where "Holding status \<in> set (workers s)"
        | (alldone) "list_all (\<lambda>w. w = Done) (workers s)" by blast
      then show ?thesis
      proof cases
        case idle
        then obtain i where i: "i < length (workers s)" "workers s ! i = Idle"
          by (auto simp: in_set_conv_nth)
        show ?thesis
        proof (cases "linkChan s")
          case Nil
          with i True have "step chk s (Exit i) = Some (s\<lparr>workers := (workers s)[i := Done]\<rparr>)"
            by simp
          then show ?thesis by blast
        next
          case (Cons link rest)
          with i have "step chk s (Receive i) =
            Some (s\<lparr>linkChan := rest, workers := (workers s)[i := Holding (chk link)]\<rparr>)"
            by simp
          then show ?thesis by blast
        qed
      next
        case holding
        then obtain i where i: "i < length (workers s)" "workers s ! i = Holding status"
          by (auto simp: in_set_conv_nth)
        from held_member[OF holding] have "0 < length (held (workers s))" by simp
        with cnt cap have "length (resultChan s) < capacity s" by linarith
        with i have "step chk s (Emit i) =
          Some (s\<lparr>resultChan := resultChan s @ [status], workers := (workers s)[i := Idle]\<rparr>)"
          by simp
        then show ?thesis by blast
      next
        case alldone
        show ?thesis
        proof (cases "resultClosed s")
          case False
          with alldone have "step chk s CloseResults = Some (s\<lparr>resultClosed := True\<rparr>)" by simp
          then show ?thesis by blast
        next
          case rc: True
          show ?thesis
          proof (cases "resultChan s")
            case Nil
            with rc nr have "step chk s Return = Some (s\<lparr>returned := True\<rparr>)" by simp
            then show ?thesis by blast
          next
            case (Cons status rest)
            with nr have "step chk s Collect =
              Some (s\<lparr>resultChan := rest, results := results s @ [status]\<rparr>)" by simp
            then show ?thesis by blast
          qed
        qed
      qed
    qed
  qed
qed

lemma run_completes:
  "pool_inv chk links n s \<Longrightarrow> \<exists>sched s'. run chk s sched = Some s' \<and> returned s'"
proof (induction "remaining s" arbitrary: s rule: less_induct)
  case less
  show ?case
  proof (cases "returned s")
    case True
    then have "run chk s [] = Some s \<and> returned s" by simp
    then show ?thesis by blast
  next
    case False
    from step_progress[OF less.prems False] obtain a s1 where a: "step chk s a = Some s1" by blast
    from step_remaining[OF a] have "remaining s1 < remaining s" by simp
    from less.hyps[OF this step_inv[OF less.prems a]] obtain sched s' where
      "run chk s1 sched = Some s'" "returned s'" by blast
    with a have "run chk s (a # sched) = Some s' \<and> returned s'" by simp
    then show ?thesis by blast
  qed
qed

lemma worker_status_Link: "Link (worker_status w basePath timeout link) = link"
  by (simp add: worker_status_def split: prod.splits)

lemma ValidateLinksAsync_Some:
  assumes "links \<noteq> []"
  shows "ValidateLinksAsync w links basePath timeout maxWorkers sched = Some statuses \<longleftrightarrow>
         (\<exists>s. run (worker_status w basePath timeout) (start links maxWorkers) sched = Some s
              \<and> returned s \<and> statuses = results s)"
  using assms by (auto simp: ValidateLinksAsync_def split: option.splits)

subsection \<open>What the pool returns\<close>

text \<open>
  Claim C1. For a non-empty batch and a worker count between 1 and the number of
  links, \<open>ValidateLinksAsync\<close> returns, and whatever the order in which the goroutines
  run, the slice returned has exactly one status per input link: as many statuses as
  links, the statuses being those that \<open>worker\<close> computes for the links, each once, and
  the links named by the statuses being the input links, each as often as in the input.
  That it returns: some schedule reaches the return; no schedule runs for more than
  \<open>4 * len(links) + maxWorkers + 3\<close> steps; and in every state reached before the return
  some goroutine can take a step.
\<close>

theorem ValidateLinksAsync_one_status_per_link:
  assumes "links \<noteq> []" and "1 \<le> maxWorkers" and "maxWorkers \<le> int (length links)"
  shows "(\<exists>sched statuses.
            ValidateLinksAsync w links basePath timeout maxWorkers sched = Some statuses)
       \<and> (\<forall>sched statuses.
            ValidateLinksAsync w links basePath timeout maxWorkers sched = Some statuses \<longrightarrow>
              length statuses = length links
            \<and> mset statuses = image_mset (worker_status w basePath timeout) (mset links)
            \<and> mset (map Link statuses) = mset links)
       \<and> (\<forall>sched s.
            run (worker_status w basePath timeout) (start links maxWorkers) sched = Some s \<longrightarrow>
              length sched \<le> 4 * length links + nat maxWorkers + 3
            \<and> (\<not> returned s \<longrightarrow> (\<exists>a s'. step (worker_status w basePath timeout) s a = Some s')))"
proof -
  let ?chk = "worker_status w basePath timeout"
  let ?s0 = "start links maxWorkers"
  have inv0: "pool_inv ?chk links (nat maxWorkers) ?s0" by (rule start_inv)
  have pos: "nat maxWorkers > 0" using assms(2) by simp
  have A: "\<exists>sched statuses. ValidateLinksAsync w links basePath timeout maxWorkers sched = Some statuses"
  proof -
    from run_completes[OF inv0] obtain sched s where "run ?chk ?s0 sched = Some s" "returned s"
      by blast
    then have "ValidateLinksAsync w links basePath timeout maxWorkers sched = Some (results s)"
      using assms(1) by (simp add: ValidateLinksAsync_def)
    then show ?thesis by blast
  qed
  have B: "length statuses = length links
            \<and> mset statuses = image_mset ?chk (mset links)
            \<and> mset (map Link statuses) = mset links"
    if "ValidateLinksAsync w links basePath timeout maxWorkers sched = Some statuses"
    for sched statuses
  proof -
    from that obtain s where s: "run ?chk ?s0 sched = Some s" "returned s" "statuses = results s"
      using ValidateLinksAsync_Some[OF assms(1)] by blast
    from returned_results[OF run_inv[OF inv0 s(1)] s(2) pos] s(3)
    have m: "mset statuses = image_mset ?chk (mset links)" by simp
    then have "size (mset statuses) = size (image_mset ?chk (mset links))" by simp
    then have l: "length statuses = length links" by simp
    have "mset (map Link statuses) = image_mset Link (mset statuses)" by simp
    also have "\<dots> = image_mset (\<lambda>link. Link (?chk link)) (mset links)"
      by (simp add: m multiset.map_comp comp_def)
    also have "\<dots> = mset links" by (simp add: worker_status_Link)
    finally show ?thesis using m l by simp
  qed
  have C: "length sched \<le> 4 * length links + nat maxWorkers + 3
            \<and> (\<not> returned s \<longrightarrow> (\<exists>a s'. step ?chk s a = Some s'))"
    if "run ?chk ?s0 sched = Some s" for sched s
  proof -
    from run_remaining[OF that] have "length sched \<le> remaining ?s0" by simp
    then have "length sched \<le> 4 * length links + nat maxWorkers + 3"
      by (simp add: start_remaining)
    moreover have "\<not> returned s \<longrightarrow> (\<exists>a s'. step ?chk s a = Some s')"
      using step_progress[OF run_inv[OF inv0 that]] by blast
    ultimately show ?thesis by simp
  qed
  from A B C show ?thesis by blast
qed

theorem ValidateLinksAsync_one_status_per_link_witness:
  "[''http://site/ok'', ''test.md''] \<noteq> [] \<and> (1::int) \<le> 2
   \<and> (2::int) \<le> int (length [''http://site/ok'', ''test.md''])
   \<and> ValidateLinksAsync example_world [''http://site/ok'', ''test.md''] ''docs'' 5 2 example_schedule
       = Some [\<lparr>Link = ''test.md'', Valid = True, Reason = '''', StatusCode = 0\<rparr>,
               \<lparr>Link = ''http://site/ok'', Valid = True, Reason = '''', StatusCode = 200\<rparr>]
   \<and> length [\<lparr>Link = ''test.md'', Valid = True, Reason = '''', StatusCode = 0\<rparr>,
               \<lparr>Link = ''http://site/ok'', Valid = True, Reason = '''', StatusCode = 200\<rparr>]
       = length [''http://site/ok'', ''test.md'']"
proof -
  have h1: "[''http://site/ok'', ''test.md''] \<noteq> []" by simp
  have h2: "(1::int) \<le> 2" by simp
  have h3: "(2::int) \<le> int (length [''http://site/ok'', ''test.md''])" by simp
  have e: "ValidateLinksAsync example_world [''http://site/ok'', ''test.md''] ''docs'' 5 2 example_schedule
       = Some [\<lparr>Link = ''test.md'', Valid = True, Reason = '''', StatusCode = 0\<rparr>,
               \<lparr>Link = ''http://site/ok'', Valid = True, Reason = '''', StatusCode = 200\<rparr>]"
    by code_simp
  from ValidateLinksAsync_one_status_per_link[OF h1 h2 h3, of example_world "''docs''" 5] e
  have "length [\<lparr>Link = ''test.md'', Valid = True, Reason = '''', StatusCode = 0\<rparr>,
               \<lparr>Link = ''http://site/ok'', Valid = True, Reason = '''', StatusCode = 200\<rparr>]
       = length [''http://site/ok'', ''test.md'']" by blast
  with h1 h2 h3 e show ?thesis by blast
qed

text \<open>
  Claim C4 as stated fails, for the pool and for its callers. With no worker the pool
  checks nothing: for a batch of one link and \<open>maxWorkers = 0\<close> the wait group is at zero
  from the start, \<open>resultChan\<close> is closed at once, and the function returns an empty
  slice. With \<open>config.Workers = 0\<close> both \<open>processMarkdownFile\<close> and \<open>processURL\<close> return
  normally, with no error and no result, for a document that has a link.
\<close>

theorem no_workers_counterexample:
  "ValidateLinksAsync example_world [''test.md''] ''docs'' 30000000000 0 [CloseResults, Return] = Some []
   \<and> ExtractLinksFromFile example_world ''docs/README.md'' = Inr [''#section'']
   \<and> processMarkdownFile example_world (example_config\<lparr>Workers := 0\<rparr>) ''docs/README.md''
         [CloseResults, Return] = Some (Inr [])
   \<and> processURL example_world (example_config\<lparr>Workers := 0\<rparr>) ''http://site/''
         [CloseResults, Return] = Some (Inr [])"
  by code_simp

text \<open>
  Claim C4, as the code has it. A worker count of zero or less is not rejected, neither
  by \<open>ValidateLinksAsync\<close>, whose result type has no error, nor by its callers
  \<open>processMarkdownFile\<close> and \<open>processURL\<close>, which pass \<open>config.Workers\<close> on unchecked. The
  pool starts no worker; the schedule in which the waiting goroutine closes \<open>resultChan\<close>
  and the caller returns gives the empty slice, and so does every run that returns.
  Each caller, once it has its links (the markdown file was read; the page was fetched
  and its URL parsed), returns under that schedule with no error and no result, and
  whatever the schedule it never returns anything else: no error, and no result.
\<close>

theorem ValidateLinksAsync_no_workers:
  assumes "maxWorkers \<le> 0"
  shows "ValidateLinksAsync w links basePath timeout maxWorkers [CloseResults, Return] = Some []
       \<and> (\<forall>sched statuses.
            ValidateLinksAsync w links basePath timeout maxWorkers sched = Some statuses \<longrightarrow>
              statuses = [])
       \<and> (\<forall>config filePath found.
            Workers config = maxWorkers \<and> ExtractLinksFromFile w filePath = Inr found \<longrightarrow>
              processMarkdownFile w config filePath [CloseResults, Return] = Some (Inr [])
              \<and> (\<forall>sched out. processMarkdownFile w config filePath sched = Some out \<longrightarrow>
                    out = Inr []))
       \<and> (\<forall>config inputURL content baseURL.
            Workers config = maxWorkers \<and> FetchPage w inputURL (Timeout config) = Body content
            \<and> url_Parse w inputURL = Inr baseURL \<longrightarrow>
              processURL w config inputURL [CloseResults, Return] = Some (Inr [])
              \<and> (\<forall>sched out. processURL w config inputURL sched = Some out \<longrightarrow>
                    out = Inr []))"
proof -
  have n0: "nat maxWorkers = 0" using assms by simp
  have A: "ValidateLinksAsync w' links' basePath' timeout' maxWorkers [CloseResults, Return] = Some []"
    for w' links' basePath' timeout'
    using n0 by (simp add: ValidateLinksAsync_def start_def)
  have B: "statuses = []"
    if "ValidateLinksAsync w' links' basePath' timeout' maxWorkers sched = Some statuses"
    for w' links' basePath' timeout' sched statuses
  proof (cases "links' = []")
    case True
    with that show ?thesis by (simp add: ValidateLinksAsync_def)
  next
    case False
    from that obtain s where
      s: "run (worker_status w' basePath' timeout') (start links' maxWorkers) sched = Some s"
         "statuses = results s"
      using ValidateLinksAsync_Some[OF False] by blast
    from run_inv[OF start_inv s(1)] n0 s(2) show ?thesis by (simp add: pool_inv_def)
  qed
  have C: "processMarkdownFile w config filePath [CloseResults, Return] = Some (Inr [])
           \<and> (\<forall>sched out. processMarkdownFile w config filePath sched = Some out \<longrightarrow> out = Inr [])"
    if "Workers config = maxWorkers \<and> ExtractLinksFromFile w filePath = Inr found"
    for config filePath found
  proof -
    have "processMarkdownFile w config filePath [CloseResults, Return] = Some (Inr [])"
      using that A by (simp add: processMarkdownFile_def Let_def)
    moreover have "out = Inr []" if "processMarkdownFile w config filePath sched = Some out"
      for sched out
      using that \<open>Workers config = maxWorkers \<and> ExtractLinksFromFile w filePath = Inr found\<close> B
      by (auto simp: processMarkdownFile_def Let_def split: option.splits)
    ultimately show ?thesis by blast
  qed
  have D: "processURL w config inputURL [CloseResults, Return] = Some (Inr [])
           \<and> (\<forall>sched out. processURL w config inputURL sched = Some out \<longrightarrow> out = Inr [])"
    if "Workers config = maxWorkers \<and> FetchPage w inputURL (Timeout config) = Body content
        \<and> url_Parse w inputURL = Inr baseURL"
    for config inputURL content baseURL
  proof -
    have "processURL w config inputURL [CloseResults, Return] = Some (Inr [])"
      using that A by (simp add: processURL_def Let_def)
    moreover have "out = Inr []" if "processURL w config inputURL sched = Some out"
      for sched out
      using that \<open>Workers config = maxWorkers \<and> FetchPage w inputURL (Timeout config) = Body content
        \<and> url_Parse w inputURL = Inr baseURL\<close> B
      by (auto simp: processURL_def Let_def split: option.splits)
    ultimately show ?thesis by blast
  qed
  from A B C D show ?thesis by blast
qed

theorem ValidateLinksAsync_no_workers_witness:
  "(-1::int) \<le> 0
   \<and> ValidateLinksAsync example_world [''test.md'', ''http://site/ok''] ''docs'' 5 (-1)
        [SendLink, CloseResults, SendLink, Return] = Some []
   \<and> Workers (example_config\<lparr>Workers := -1\<rparr>) = -1
   \<and> ExtractLinksFromFile example_world ''docs/README.md'' = Inr [''#section'']
   \<and> processMarkdownFile example_world (example_config\<lparr>Workers := -1\<rparr>) ''docs/README.md''
        [CloseResults, Return] = Some (Inr [])
   \<and> FetchPage example_world ''http://site/'' (Timeout (example_config\<lparr>Workers := -1\<rparr>))
        = Body ''<html>''
   \<and> url_Parse example_world ''http://site/'' = Inr (url_URL ''http'' ''//site/'')
   \<and> processURL example_world (example_config\<lparr>Workers := -1\<rparr>) ''http://site/''
        [CloseResults, Return] = Some (Inr [])"
proof -
  have h: "(-1::int) \<le> 0" by simp
  note nw = ValidateLinksAsync_no_workers[OF h, of example_world
      "[''test.md'', ''http://site/ok'']" "''docs''" 5]
  have "ValidateLinksAsync example_world [''test.md'', ''http://site/ok''] ''docs'' 5 (-1)
        [SendLink, CloseResults, SendLink, Return] \<noteq> None"
    by code_simp
  with nw
  have a: "ValidateLinksAsync example_world [''test.md'', ''http://site/ok''] ''docs'' 5 (-1)
        [SendLink, CloseResults, SendLink, Return] = Some []" by blast
  have c: "Workers (example_config\<lparr>Workers := -1\<rparr>) = -1" by simp
  have e: "ExtractLinksFromFile example_world ''docs/README.md'' = Inr [''#section'']"
    by code_simp
  from nw c e
  have m: "processMarkdownFile example_world (example_config\<lparr>Workers := -1\<rparr>) ''docs/README.md''
        [CloseResults, Return] = Some (Inr [])" by blast
  have f: "FetchPage example_world ''http://site/'' (Timeout (example_config\<lparr>Workers := -1\<rparr>))
        = Body ''<html>''" by code_simp
  have p: "url_Parse example_world ''http://site/'' = Inr (url_URL ''http'' ''//site/'')"
    by code_simp
  from nw c f p
  have u: "processURL example_world (example_config\<lparr>Workers := -1\<rparr>) ''http://site/''
        [CloseResults, Return] = Some (Inr [])" by blast
  from h a c e m f p u show ?thesis by blast
qed

text \<open>
  Claim C9. The status that \<open>worker\<close> computes for a link names that link; if it is valid
  its reason is empty; its status code is 0 when the link is checked as a file, and also
  when it is checked over HTTP and both \<open>HEAD\<close> and \<open>GET\<close> fail, in which case it is invalid.
  Every status that \<open>ValidateLinksAsync\<close> returns is the status \<open>worker\<close> computes for one of
  the input links, so all of them satisfy this.
\<close>

theorem LinkStatus_invariant:
  "(let status = worker_status w basePath timeout link
    in Link status = link
       \<and> (Valid status \<longrightarrow> Reason status = '''')
       \<and> (\<not> (HasPrefix link ''http://'' \<or> HasPrefix link ''https://'') \<longrightarrow> StatusCode status = 0)
       \<and> ((HasPrefix link ''http://'' \<or> HasPrefix link ''https://'')
            \<and> (\<exists>e. client_Head w timeout link = Inl e) \<and> (\<exists>e. client_Get w timeout link = Inl e) \<longrightarrow>
            \<not> Valid status \<and> StatusCode status = 0))
   \<and> (ValidateLinksAsync w links basePath timeout maxWorkers sched = Some statuses \<longrightarrow>
        (\<forall>status \<in> set statuses. \<exists>link \<in> set links. status = worker_status w basePath timeout link))"
proof -
  have A: "let status = worker_status w basePath timeout link
    in Link status = link
       \<and> (Valid status \<longrightarrow> Reason status = '''')
       \<and> (\<not> (HasPrefix link ''http://'' \<or> HasPrefix link ''https://'') \<longrightarrow> StatusCode status = 0)
       \<and> ((HasPrefix link ''http://'' \<or> HasPrefix link ''https://'')
            \<and> (\<exists>e. client_Head w timeout link = Inl e) \<and> (\<exists>e. client_Get w timeout link = Inl e) \<longrightarrow>
            \<not> Valid status \<and> StatusCode status = 0)"
    by (auto simp: worker_status_def checkHTTP_def checkFile_def Let_def
             split: sum.splits option.splits if_splits)
  have B: "\<exists>link \<in> set links. status = worker_status w basePath timeout link"
    if v: "ValidateLinksAsync w links basePath timeout maxWorkers sched = Some statuses"
      and m: "status \<in> set statuses" for status
  proof (cases "links = []")
    case True
    with v m show ?thesis by (simp add: ValidateLinksAsync_def)
  next
    case False
    from v obtain s where s: "run (worker_status w basePath timeout) (start links maxWorkers) sched = Some s"
      "statuses = results s"
      using ValidateLinksAsync_Some[OF False] by blast
    from results_subset[OF run_inv[OF start_inv s(1)]] s(2) m show ?thesis by auto
  qed
  from A B show ?thesis by blast
qed

theorem LinkStatus_invariant_witness:
  "Valid (worker_status example_world ''docs'' 5 ''http://site/ok'')
   \<and> Reason (worker_status example_world ''docs'' 5 ''http://site/ok'') = ''''
   \<and> \<not> (HasPrefix ''gone.md'' ''http://'' \<or> HasPrefix ''gone.md'' ''https://'')
   \<and> StatusCode (worker_status example_world ''docs'' 5 ''gone.md'') = 0"
proof -
  have v: "Valid (worker_status example_world ''docs'' 5 ''http://site/ok'')" by code_simp
  have h: "\<not> (HasPrefix ''gone.md'' ''http://'' \<or> HasPrefix ''gone.md'' ''https://'')" by code_simp
  from LinkStatus_invariant[of example_world "''docs''" 5 "''http://site/ok''"] v
  have a: "Reason (worker_status example_world ''docs'' 5 ''http://site/ok'') = ''''"
    by (simp add: Let_def)
  from LinkStatus_invariant[of example_world "''docs''" 5 "''gone.md''"] h
  have b: "StatusCode (worker_status example_world ''docs'' 5 ''gone.md'') = 0"
    by (simp add: Let_def)
  from v h a b show ?thesis by blast
qed

section \<open>Properties of the cli package\<close>

text \<open>
  \<open>processURL\<close> drops a link that is empty or begins with \<open>#\<close>, \<open>javascript:\<close>, \<open>mailto:\<close>
  or \<open>tel:\<close> before anything is checked.
\<close>

lemma absoluteLinks_skip:
  "link = '''' \<or> HasPrefix link ''#'' \<or> HasPrefix link ''javascript:'' \<or>
   HasPrefix link ''mailto:'' \<or> HasPrefix link ''tel:'' \<Longrightarrow>
   absoluteLinks w baseURL (link # links) = absoluteLinks w baseURL links"
  by simp

text \<open>
  Claim C3. \<open>processMarkdownFile\<close> has no such test. A markdown file whose only link is
  the anchor \<open>#section\<close> gives a \<open>Result\<close> for it: the anchor is sent to the pool, checked
  as the file \<open>docs/#section\<close> and reported invalid. On the web page, whose links are
  \<open>#top\<close> and one URL, \<open>processURL\<close> reports the URL only.
\<close>

theorem markdown_path_checks_anchor:
  "processMarkdownFile example_world example_config ''docs/README.md'' one_link_schedule
     = Some (Inr [\<lparr>URL = ''#section'', Status = ''invalid'', RStatusCode = 0,
                   Error = ''stat docs/#section: no such file or directory'',
                   Source = ''docs/README.md'', Line = 0\<rparr>])
   \<and> processURL example_world example_config ''http://site/'' one_link_schedule
     = Some (Inr [\<lparr>URL = ''http://site/ok'', Status = ''valid'', RStatusCode = 200,
                   Error = '''', Source = ''http://site/'', Line = 0\<rparr>])"
  by code_simp

lemma process_inputs_all:
  "\<forall>input \<in> set inputs. proc input = Inr (batch input) \<Longrightarrow>
   process_inputs proc what inputs acc = Inr (acc @ concat (map batch inputs))"
  by (induction inputs arbitrary: acc) simp_all

lemma summary_fold:
  "fold (\<lambda>result (valid, invalid).
           if Status result = ''valid'' then (valid + 1, invalid) else (valid, invalid + 1))
     found (v, i)
   = (v + int (length (filter (\<lambda>result. Status result = ''valid'') found)),
      i + int (length (filter (\<lambda>result. Status result \<noteq> ''valid'') found)))"
  by (induction found arbitrary: v i) simp_all

lemma filter_invalid_results:
  "filter (\<lambda>result. Status result = ''invalid'')
          (map (\<lambda>(source, status). status_result source status) batch)
   = map (\<lambda>(source, status). status_result source status)
         (filter (\<lambda>(source, status). \<not> Valid status) batch)"
  by (induction batch) (auto simp: status_result_def)

lemma process_inputs_list_all:
  assumes "\<forall>input found. proc input = Inr found \<longrightarrow> list_all P found"
  shows "list_all P acc \<Longrightarrow> process_inputs proc what inputs acc = Inr found \<Longrightarrow> list_all P found"
proof (induction inputs arbitrary: acc)
  case Nil
  then show ?case by simp
next
  case (Cons input inputs)
  from Cons.prems(2) obtain more where m: "proc input = Inr more"
    "process_inputs proc what inputs (acc @ more) = Inr found"
    by (auto split: sum.splits)
  from assms m(1) have "list_all P more" by blast
  with Cons.prems(1) have "list_all P (acc @ more)" by simp
  from Cons.IH[OF this m(2)] show ?case .
qed

text \<open>
  Claim C8. With \<open>OnlyDead\<close> set and every input processed without error,
  \<open>runRealLinkChecker\<close> filters once, after the batches of all paths and all URLs have
  been appended: the results are those of the merged statuses that are not valid, in
  their order, so every result left has status \<open>invalid\<close>. The summary is computed from
  the filtered list: \<open>Total\<close> is its length, \<open>Valid + Invalid = Total\<close>, and \<open>Valid = 0\<close>.
\<close>

theorem only_dead_filter:
  assumes "OnlyDead config"
    and "\<forall>input \<in> set (InputPaths config).
           procPath input = Inr (map (\<lambda>(source, status). status_result source status) (pathBatch input))"
    and "\<forall>input \<in> set (InputURLs config).
           procURL input = Inr (map (\<lambda>(source, status). status_result source status) (urlBatch input))"
  shows "\<exists>out. runRealLinkChecker config procPath procURL = Inr out
           \<and> Results out = map (\<lambda>(source, status). status_result source status)
                (filter (\<lambda>(source, status). \<not> Valid status)
                   (concat (map pathBatch (InputPaths config)) @ concat (map urlBatch (InputURLs config))))
           \<and> (\<forall>result \<in> set (Results out). Status result = ''invalid'')
           \<and> Summary_Total out = int (length (Results out))
           \<and> Summary_Valid out + Summary_Invalid out = Summary_Total out
           \<and> Summary_Valid out = 0"
proof -
  let ?entry = "\<lambda>(source, status). status_result source status"
  define merged where
    "merged = concat (map pathBatch (InputPaths config)) @ concat (map urlBatch (InputURLs config))"
  define allResults where "allResults = map ?entry merged"
  have p: "process_inputs procPath ''path'' (InputPaths config) []
             = Inr (concat (map (\<lambda>input. map ?entry (pathBatch input)) (InputPaths config)))"
    using process_inputs_all[OF assms(2), of "''path''" "[]"] by simp
  have u: "process_inputs procURL ''URL'' (InputURLs config)
               (concat (map (\<lambda>input. map ?entry (pathBatch input)) (InputPaths config)))
             = Inr allResults"
    using process_inputs_all[OF assms(3), of "''URL''"]
    by (simp add: allResults_def merged_def map_concat comp_def)
  have v: "filter (\<lambda>result. Status result = ''valid'')
             (filter (\<lambda>result. Status result = ''invalid'') allResults) = []"
    by (auto simp: filter_empty_conv)
  have i: "filter (\<lambda>result. Status result \<noteq> ''valid'')
             (filter (\<lambda>result. Status result = ''invalid'') allResults)
           = filter (\<lambda>result. Status result = ''invalid'') allResults"
    by (simp add: filter_id_conv del: filter_filter)
  have out: "runRealLinkChecker config procPath procURL
          = Inr \<lparr>Summary_Total = int (length (filter (\<lambda>result. Status result = ''invalid'') allResults)),
                 Summary_Valid = 0,
                 Summary_Invalid = int (length (filter (\<lambda>result. Status result = ''invalid'') allResults)),
                 Results = filter (\<lambda>result. Status result = ''invalid'') allResults\<rparr>"
    using assms(1)
    by (simp add: runRealLinkChecker_def p u Let_def summary_fold v i del: filter_filter)
  have k: "filter (\<lambda>result. Status result = ''invalid'') allResults
           = map ?entry (filter (\<lambda>(source, status). \<not> Valid status) merged)"
    unfolding allResults_def by (rule filter_invalid_results)
  show ?thesis
    unfolding out k[unfolded merged_def] by (auto simp: status_result_def)
qed

theorem only_dead_filter_witness:
  "OnlyDead example_config
   \<and> length (filter (\<lambda>(source, status). Valid status) (example_path_batch @ example_url_batch)) = 2
   \<and> length (filter (\<lambda>(source, status). \<not> Valid status) (example_path_batch @ example_url_batch)) = 3
   \<and> (case runRealLinkChecker example_config
              (\<lambda>input. Inr (map (\<lambda>(source, status). status_result source status) example_path_batch))
              (\<lambda>input. Inr (map (\<lambda>(source, status). status_result source status) example_url_batch)) of
         Inl err \<Rightarrow> False
       | Inr out \<Rightarrow>
           map URL (Results out) = [''gone.md'', ''http://site/missing'', ''http://slow/'']
           \<and> map Status (Results out) = [''invalid'', ''invalid'', ''invalid'']
           \<and> Summary_Total out = 3 \<and> Summary_Valid out = 0 \<and> Summary_Invalid out = 3)"
proof -
  have h: "OnlyDead example_config" by (simp add: example_config_def)
  have c2: "length (filter (\<lambda>(source, status). Valid status) (example_path_batch @ example_url_batch)) = 2"
    by (simp add: example_path_batch_def example_url_batch_def)
  have c3: "length (filter (\<lambda>(source, status). \<not> Valid status) (example_path_batch @ example_url_batch)) = 3"
    by (simp add: example_path_batch_def example_url_batch_def)
  from only_dead_filter[OF h, of "\<lambda>input. Inr (map (\<lambda>(source, status). status_result source status) example_path_batch)"
      "\<lambda>input. example_path_batch"
      "\<lambda>input. Inr (map (\<lambda>(source, status). status_result source status) example_url_batch)"
      "\<lambda>input. example_url_batch"]
  obtain out where out:
    "runRealLinkChecker example_config
        (\<lambda>input. Inr (map (\<lambda>(source, status). status_result source status) example_path_batch))
        (\<lambda>input. Inr (map (\<lambda>(source, status). status_result source status) example_url_batch)) = Inr out"
    "Results out = map (\<lambda>(source, status). status_result source status)
                (filter (\<lambda>(source, status). \<not> Valid status)
                   (concat (map (\<lambda>input. example_path_batch) (InputPaths example_config))
                    @ concat (map (\<lambda>input. example_url_batch) (InputURLs example_config))))"
    "Summary_Total out = int (length (Results out))"
    "Summary_Valid out + Summary_Invalid out = Summary_Total out"
    "Summary_Valid out = 0"
    by auto
  have r: "Results out =
       [status_result ''docs/README.md'' \<lparr>Link = ''gone.md'', Valid = False,
          Reason = ''stat docs/gone.md: no such file or directory'', StatusCode = 0\<rparr>,
        status_result ''http://site/'' \<lparr>Link = ''http://site/missing'', Valid = False,
          Reason = ''404 Not Found'', StatusCode = 404\<rparr>,
        status_result ''http://site/'' \<lparr>Link = ''http://slow/'', Valid = False,
          Reason = ''Request timeout'', StatusCode = 0\<rparr>]"
    unfolding out(2) by (simp add: example_config_def example_path_batch_def example_url_batch_def)
  have "map URL (Results out) = [''gone.md'', ''http://site/missing'', ''http://slow/'']
           \<and> map Status (Results out) = [''invalid'', ''invalid'', ''invalid'']
           \<and> Summary_Total out = 3 \<and> Summary_Valid out = 0 \<and> Summary_Invalid out = 3"
    using out(3,4,5) unfolding r by (simp add: status_result_def)
  with h c2 c3 out(1) show ?thesis by simp
qed

text \<open>
  Claim C10. Every \<open>Result\<close> that \<open>processMarkdownFile\<close> and \<open>processURL\<close> produce has
  \<open>Line = 0\<close>; and when the results of every input have \<open>Line = 0\<close>, so has every result in
  the output of \<open>runRealLinkChecker\<close>, filtered or not.
\<close>

theorem results_have_no_line:
  "(processMarkdownFile w config filePath sched = Some (Inr found) \<longrightarrow>
      (\<forall>result \<in> set found. Line result = 0))
   \<and> (processURL w config inputURL sched' = Some (Inr found') \<longrightarrow>
      (\<forall>result \<in> set found'. Line result = 0))
   \<and> ((\<forall>input batch. procPath input = Inr batch \<longrightarrow> list_all (\<lambda>result. Line result = 0) batch)
       \<and> (\<forall>input batch. procURL input = Inr batch \<longrightarrow> list_all (\<lambda>result. Line result = 0) batch)
       \<and> runRealLinkChecker config procPath procURL = Inr out \<longrightarrow>
      (\<forall>result \<in> set (Results out). Line result = 0))"
proof -
  have l: "Line (status_result source status) = 0" for source status
    by (simp add: status_result_def Let_def)
  have A: "processMarkdownFile w config filePath sched = Some (Inr found) \<longrightarrow>
      (\<forall>result \<in> set found. Line result = 0)"
    by (auto simp: processMarkdownFile_def Let_def l split: sum.splits option.splits)
  have B: "processURL w config inputURL sched' = Some (Inr found') \<longrightarrow>
      (\<forall>result \<in> set found'. Line result = 0)"
    by (auto simp: processURL_def Let_def l split: sum.splits option.splits fetched.splits)
  have C: "\<forall>result \<in> set (Results out). Line result = 0"
    if p: "\<forall>input batch. procPath input = Inr batch \<longrightarrow> list_all (\<lambda>result. Line result = 0) batch"
      and u: "\<forall>input batch. procURL input = Inr batch \<longrightarrow> list_all (\<lambda>result. Line result = 0) batch"
      and r: "runRealLinkChecker config procPath procURL = Inr out"
  proof -
    from r obtain fileResults allResults where
      f: "process_inputs procPath ''path'' (InputPaths config) [] = Inr fileResults" and
      a: "process_inputs procURL ''URL'' (InputURLs config) fileResults = Inr allResults" and
      o: "Results out = (if OnlyDead config
                         then filter (\<lambda>result. Status result = ''invalid'') allResults
                         else allResults)"
      by (auto simp: runRealLinkChecker_def Let_def split: sum.splits prod.splits)
    from process_inputs_list_all[OF p _ f] have "list_all (\<lambda>result. Line result = 0) fileResults"
      by simp
    from process_inputs_list_all[OF u this a] have "list_all (\<lambda>result. Line result = 0) allResults" .
    with o show ?thesis by (auto simp: list_all_iff)
  qed
  from A B C show ?thesis by blast
qed

theorem results_have_no_line_witness:
  "processMarkdownFile example_world example_config ''docs/README.md'' one_link_schedule
     = Some (Inr [status_result ''docs/README.md''
                    (worker_status example_world ''docs'' 30000000000 ''#section'')])
   \<and> Line (status_result ''docs/README.md''
             (worker_status example_world ''docs'' 30000000000 ''#section'')) = 0"
proof -
  have e: "processMarkdownFile example_world example_config ''docs/README.md'' one_link_schedule
     = Some (Inr [status_result ''docs/README.md''
                    (worker_status example_world ''docs'' 30000000000 ''#section'')])"
    by code_simp
  from results_have_no_line[of example_world example_config "''docs/README.md''" one_link_schedule] e
  have "Line (status_result ''docs/README.md''
             (worker_status example_world ''docs'' 30000000000 ''#section'')) = 0"
    by simp
  with e show ?thesis by blast
qed

end
